theory Spec2Isabelle
  imports Main "HOL-Library.Multiset"
begin

section \<open>JavaScript values used by the decision engine\<close>

text \<open>
  The engine of \<^verbatim>\<open>src/background.js\<close> compares and adds JavaScript numbers, one of
  which (\<^verbatim>\<open>tab.lastAccessed\<close>) may be \<^verbatim>\<open>undefined\<close>, and it tests against
  \<^verbatim>\<open>Infinity\<close>. A number is therefore a finite value, one of the two infinities or NaN.
  Finite values are integers (epoch milliseconds and millisecond durations); the rounding
  of doubles beyond 2^53 and fractional milliseconds are not modelled.
\<close>

datatype jsnum = Fin int | PInf | NInf | NaN

text \<open>\<^verbatim>\<open>ToNumber\<close> of a field that may be \<^verbatim>\<open>undefined\<close> (\<open>None\<close>): undefined becomes NaN.\<close>

fun toNumber :: "jsnum option \<Rightarrow> jsnum" where
  "toNumber None = NaN"
| "toNumber (Some x) = x"

text \<open>The operator \<^verbatim>\<open>+\<close> on numbers.\<close>

fun js_add :: "jsnum \<Rightarrow> jsnum \<Rightarrow> jsnum" where
  "js_add NaN y = NaN"
| "js_add x NaN = NaN"
| "js_add PInf NInf = NaN"
| "js_add NInf PInf = NaN"
| "js_add PInf y = PInf"
| "js_add x PInf = PInf"
| "js_add NInf y = NInf"
| "js_add x NInf = NInf"
| "js_add (Fin a) (Fin b) = Fin (a + b)"

text \<open>The operator \<^verbatim>\<open><\<close> on numbers: false as soon as one side is NaN.\<close>

fun js_lt :: "jsnum \<Rightarrow> jsnum \<Rightarrow> bool" where
  "js_lt NaN y = False"
| "js_lt x NaN = False"
| "js_lt (Fin a) (Fin b) = (a < b)"
| "js_lt PInf y = False"
| "js_lt x NInf = False"
| "js_lt NInf y = True"
| "js_lt x PInf = True"

text \<open>\<^verbatim>\<open>x > y\<close> is \<^verbatim>\<open>y < x\<close>; \<^verbatim>\<open>x >= y\<close> is false with a NaN operand and otherwise the
  negation of \<^verbatim>\<open>x < y\<close>.\<close>

definition js_gt :: "jsnum \<Rightarrow> jsnum \<Rightarrow> bool" where
  "js_gt x y = js_lt y x"

definition js_ge :: "jsnum \<Rightarrow> jsnum \<Rightarrow> bool" where
  "js_ge x y = (x \<noteq> NaN \<and> y \<noteq> NaN \<and> \<not> js_lt x y)"

text \<open>\<^verbatim>\<open>Math.min\<close> of a list of arguments: \<^verbatim>\<open>Infinity\<close> for no argument, NaN as soon
  as one argument is NaN.\<close>

definition js_min2 :: "jsnum \<Rightarrow> jsnum \<Rightarrow> jsnum" where
  "js_min2 x y = (if x = NaN \<or> y = NaN then NaN else if js_lt x y then x else y)"

fun math_min :: "jsnum list \<Rightarrow> jsnum" where
  "math_min [] = PInf"
| "math_min (x # xs) = js_min2 x (math_min xs)"

text \<open>\<^verbatim>\<open>Array.from(new Set(xs))\<close>: the distinct values in the order of their first
  occurrence.\<close>

definition array_from_set :: "'a list \<Rightarrow> 'a list" where
  "array_from_set xs = rev (remdups (rev xs))"

section \<open>Data model\<close>

text \<open>
  The fields of \<^verbatim>\<open>browser.tabs.Tab\<close> that the code reads. \<open>None\<close> is an absent
  (\<^verbatim>\<open>undefined\<close> or \<^verbatim>\<open>null\<close>) field. The field \<^verbatim>\<open>id\<close> is \<open>tab_id\<close> here.
\<close>

record tab =
  tab_id :: int
  windowId :: int
  lastAccessed :: "jsnum option"
  pinned :: bool
  audible :: bool
  incognito :: bool
  groupId :: "int option"
  title :: "string option"
  url :: "string option"
  favIconUrl :: "string option"

record settings =
  minInactiveMilliseconds :: jsnum
  minTabsCount :: int
  maxHistorySize :: int
  clearHistoryOnExit :: bool
  excludeTabsInGroups :: bool

text \<open>The typedef \<^verbatim>\<open>ClosedPageInfo\<close>.\<close>

record closedPageInfo =
  page_title :: "string option"
  page_url :: "string option"
  page_favIconUrl :: "string option"

text \<open>The object \<^verbatim>\<open>{tabsToClose, nextCheck}\<close> that \<^verbatim>\<open>tabsToClose\<close> returns, for one
  window and for all of them.\<close>

record closeInfo =
  closeTabs :: "tab list"
  nextCheck :: jsnum

datatype error = TypeError

section \<open>The decision engine (lib/autoclose.js)\<close>

text \<open>The arrow function of the first \<^verbatim>\<open>filter\<close> on \<^verbatim>\<open>unpinnedTabs\<close> (lines 148 to 158).\<close>

definition closeableTab :: "settings \<Rightarrow> tab \<Rightarrow> bool" where
  "closeableTab st t =
     (if audible t \<or> js_ge (toNumber (lastAccessed t)) PInf then False
      else if excludeTabsInGroups st \<and> groupId t \<noteq> None \<and> groupId t \<noteq> Some (- 1) then False
      else True)"

text \<open>\<^verbatim>\<open>tab.lastAccessed + settings.minInactiveMilliseconds\<close>, the instant at which the
  tab has been inactive long enough.\<close>

definition threshold :: "settings \<Rightarrow> tab \<Rightarrow> jsnum" where
  "threshold st t = js_add (toNumber (lastAccessed t)) (minInactiveMilliseconds st)"

text \<open>
  \<^verbatim>\<open>Array.prototype.sort\<close> belongs to the host. Line 159 passes it a comparator that
  returns a boolean, which the sort reads as the number 1 or 0: the comparator never
  answers "less", so it is not a consistent comparator, the language leaves the resulting
  order to the implementation, and implementations differ on it. The sort is therefore a
  parameter \<open>srt\<close> of the engine, applied to the comparator (\<open>True\<close> for the answer 1) and
  to the array. Of every implementation the language guarantees that the result is a
  permutation of the array; the properties below assume this and nothing else of \<open>srt\<close>,
  except where they say so.
\<close>

type_synonym array_sort = "(tab \<Rightarrow> tab \<Rightarrow> bool) \<Rightarrow> tab list \<Rightarrow> tab list"

definition closeableTabs :: "array_sort \<Rightarrow> settings \<Rightarrow> tab list \<Rightarrow> tab list" where
  "closeableTabs srt st unpinnedTabs =
     srt (\<lambda>t1 t2. js_gt (toNumber (lastAccessed t1)) (toNumber (lastAccessed t2)))
       (filter (closeableTab st) unpinnedTabs)"

text \<open>
  The arrow function mapped over \<^verbatim>\<open>tabsByWindow\<close> (lines 139 to 175). Reading
  \<^verbatim>\<open>onlyLaterCloseableTabs[0].lastAccessed\<close> on an empty array would throw a TypeError.
\<close>

definition perWindowResult ::
  "array_sort \<Rightarrow> jsnum \<Rightarrow> settings \<Rightarrow> tab list \<Rightarrow> error + closeInfo" where
  "perWindowResult srt now st tabs =
     (let unpinnedTabs = filter (\<lambda>t. \<not> pinned t) tabs;
          numTabsToClose = int (length unpinnedTabs) - minTabsCount st
      in if numTabsToClose \<le> 0 then Inr \<lparr>closeTabs = [], nextCheck = PInf\<rparr>
         else
           let nowCloseableTabs =
                 filter (\<lambda>t. js_lt (threshold st t) now) (closeableTabs srt st unpinnedTabs);
               onlyLaterCloseableTabs =
                 filter (\<lambda>t. js_ge (threshold st t) now) (closeableTabs srt st unpinnedTabs);
               tabsToClose = take (nat numTabsToClose) nowCloseableTabs
           in if int (length tabsToClose) = numTabsToClose \<or> length onlyLaterCloseableTabs = 0
              then Inr \<lparr>closeTabs = tabsToClose, nextCheck = PInf\<rparr>
              else (case onlyLaterCloseableTabs of
                      [] \<Rightarrow> Inl TypeError
                    | t # _ \<Rightarrow> Inr \<lparr>closeTabs = tabsToClose, nextCheck = threshold st t\<rparr>))"

text \<open>A \<^verbatim>\<open>map\<close> whose callback may throw: the first error ends it.\<close>

fun collect :: "(error + 'a) list \<Rightarrow> error + 'a list" where
  "collect [] = Inr []"
| "collect (r # rs) =
     (case r of
        Inl e \<Rightarrow> Inl e
      | Inr x \<Rightarrow> (case collect rs of Inl e \<Rightarrow> Inl e | Inr xs \<Rightarrow> Inr (x # xs)))"

definition tabsByWindow :: "tab list \<Rightarrow> tab list list" where
  "tabsByWindow tabs =
     map (\<lambda>w. filter (\<lambda>t. windowId t = w) tabs) (array_from_set (map windowId tabs))"

definition tabsToClose ::
  "array_sort \<Rightarrow> jsnum \<Rightarrow> settings \<Rightarrow> tab list \<Rightarrow> error + closeInfo" where
  "tabsToClose srt now st tabs =
     (case collect (map (perWindowResult srt now st) (tabsByWindow tabs)) of
        Inl e \<Rightarrow> Inl e
      | Inr perWindowResults \<Rightarrow>
          Inr \<lparr>closeTabs = concat (map closeTabs perWindowResults),
               nextCheck = math_min (map nextCheck perWindowResults)\<rparr>)"

section \<open>History (lib/autoclose.js, saveableTab and autoclose)\<close>

text \<open>
  \<^verbatim>\<open>new URL(tab.url).protocol\<close> is the host's URL parser, which is not part of the
  repository: \<open>protocolOf\<close> stands for it, \<open>None\<close> where the constructor throws a
  TypeError on a string that is not a URL.
\<close>

definition saveableTab :: "(string \<Rightarrow> string option) \<Rightarrow> tab \<Rightarrow> error + bool" where
  "saveableTab protocolOf t =
     (case (title t, url t) of
        (Some ti, Some u) \<Rightarrow>
          (case protocolOf u of
             None \<Rightarrow> Inl TypeError
           | Some protocol \<Rightarrow>
               if protocol \<in> set [''chrome:'', ''javascript:'', ''data:'', ''file:'', ''about:'']
               then Inr False
               else if incognito t then Inr False
               else Inr True)
      | _ \<Rightarrow> Inr False)"

text \<open>\<^verbatim>\<open>Array.prototype.filter\<close> with a callback that may throw.\<close>

fun filter_throwing :: "('a \<Rightarrow> error + bool) \<Rightarrow> 'a list \<Rightarrow> error + 'a list" where
  "filter_throwing p [] = Inr []"
| "filter_throwing p (x # xs) =
     (case p x of
        Inl e \<Rightarrow> Inl e
      | Inr b \<Rightarrow>
          (case filter_throwing p xs of
             Inl e \<Rightarrow> Inl e
           | Inr ys \<Rightarrow> Inr (if b then x # ys else ys)))"

definition closedPage :: "tab \<Rightarrow> closedPageInfo" where
  "closedPage t = \<lparr>page_title = title t, page_url = url t, page_favIconUrl = favIconUrl t\<rparr>"

text \<open>
  The history step of \<^verbatim>\<open>autoclose\<close> (lines 233 to 243): the new value of
  \<^verbatim>\<open>state.history\<close> from the settings, the tabs that were closed and the old history, or the
  error that rejects the promise and leaves the state as it was.
\<close>

definition autocloseHistory ::
  "(string \<Rightarrow> string option) \<Rightarrow> settings \<Rightarrow> tab list \<Rightarrow> closedPageInfo list
     \<Rightarrow> error + closedPageInfo list" where
  "autocloseHistory protocolOf st closed history =
     (if maxHistorySize st > 0
      then (case filter_throwing (saveableTab protocolOf) closed of
              Inl e \<Rightarrow> Inl e
            | Inr saved \<Rightarrow>
                Inr (take (nat (maxHistorySize st)) (map closedPage saved @ history)))
      else Inr history)"

section \<open>The saveability filter in the words of the specification\<close>

text \<open>
  The history accumulator of the specification keeps the closed tabs whose title and URL
  are present, whose URL scheme is none of the internal, script, data, file and private
  schemes, and which are not incognito. \<open>saveableSpec\<close> states this filter; it is compared
  with \<open>saveableTab\<close> below.
\<close>

definition saveableSpec :: "(string \<Rightarrow> string option) \<Rightarrow> tab \<Rightarrow> bool" where
  "saveableSpec protocolOf t =
     (case (title t, url t) of
        (Some ti, Some u) \<Rightarrow>
          protocolOf u \<notin> Some ` {''chrome:'', ''javascript:'', ''data:'', ''file:'', ''about:''}
          \<and> \<not> incognito t
      | _ \<Rightarrow> False)"

section \<open>Sample inputs\<close>

text \<open>
  Tabs and settings on which the properties are exercised: an unpinned, silent, ungrouped
  tab with a title and an https URL, and settings with an inactivity threshold of 600 ms.
  \<open>sampleProtocol\<close> is a URL parser that is good enough for the sample URLs: the scheme
  is the text before the first colon, and a string without a colon is not a URL.
\<close>

definition mkTab :: "int \<Rightarrow> int \<Rightarrow> jsnum option \<Rightarrow> tab" where
  "mkTab i w la = \<lparr>tab_id = i, windowId = w, lastAccessed = la, pinned = False, audible = False,
     incognito = False, groupId = None, title = Some ''Example'',
     url = Some ''https://example.org/'', favIconUrl = None\<rparr>"

definition mkSettings :: "int \<Rightarrow> int \<Rightarrow> settings" where
  "mkSettings n h = \<lparr>minInactiveMilliseconds = Fin 600, minTabsCount = n, maxHistorySize = h,
     clearHistoryOnExit = True, excludeTabsInGroups = False\<rparr>"

definition sampleProtocol :: "string \<Rightarrow> string option" where
  "sampleProtocol u =
     (if CHR '':'' \<in> set u then Some (takeWhile (\<lambda>c. c \<noteq> CHR '':'') u @ '':'') else None)"

definition samplePage :: closedPageInfo where
  "samplePage = \<lparr>page_title = Some ''Older'', page_url = Some ''https://example.com/'',
     page_favIconUrl = None\<rparr>"

text \<open>A closed tab whose URL is the empty string, which no URL parser accepts.\<close>

definition emptyUrlTab :: tab where
  "emptyUrlTab = (mkTab 1 1 None)\<lparr>url := Some ''''\<rparr>"

text \<open>
  Two implementations of the sort, for the two conventions that implementations follow
  on a comparator that does not answer "less". \<open>sortMovingOnPositive\<close> is a stable
  insertion sort that moves an item to the left past each element \<open>swap\<close> for which
  \<^verbatim>\<open>comparefn(swap, item) > 0\<close> and stops at the first element for which it is not;
  \<open>insert_item\<close> takes the sorted prefix in reverse (its last element first).
  \<open>sortMovingOnNegative\<close> moves an element only on a negative answer: the answers here are
  1 and 0, so it leaves the array as it is.
\<close>

fun insert_item :: "('a \<Rightarrow> 'a \<Rightarrow> bool) \<Rightarrow> 'a \<Rightarrow> 'a list \<Rightarrow> 'a list" where
  "insert_item cmp item [] = [item]"
| "insert_item cmp item (swap # rest) =
     (if cmp swap item then swap # insert_item cmp item rest else item # swap # rest)"

definition sortMovingOnPositive :: "('a \<Rightarrow> 'a \<Rightarrow> bool) \<Rightarrow> 'a list \<Rightarrow> 'a list" where
  "sortMovingOnPositive cmp xs = rev (foldl (\<lambda>prefix item. insert_item cmp item prefix) [] xs)"

definition sortMovingOnNegative :: "('a \<Rightarrow> 'a \<Rightarrow> bool) \<Rightarrow> 'a list \<Rightarrow> 'a list" where
  "sortMovingOnNegative cmp xs = xs"

text \<open>One window, two tabs that both become closeable later, the older one first.\<close>

definition laterOnly :: "tab list" where
  "laterOnly = [mkTab 1 1 (Some (Fin 900)), mkTab 2 1 (Some (Fin 950))]"

text \<open>The same two tabs, the older one last.\<close>

definition laterOnlyDescending :: "tab list" where
  "laterOnlyDescending = [mkTab 1 1 (Some (Fin 950)), mkTab 2 1 (Some (Fin 900))]"

text \<open>Two windows: the first spends its budget now and keeps a tab that crosses its
  threshold at 1050; the second can only close later, from 1500 on.\<close>

definition twoWindows :: "tab list" where
  "twoWindows = [mkTab 1 1 (Some (Fin 100)), mkTab 2 1 (Some (Fin 450)),
                 mkTab 3 2 (Some (Fin 900)), mkTab 4 2 (Some (Fin 950))]"

text \<open>One window in which a tab without \<^verbatim>\<open>lastAccessed\<close> stands between two old tabs.\<close>

definition unknownBetween :: "tab list" where
  "unknownBetween = [mkTab 1 1 (Some (Fin 5)), mkTab 2 1 None, mkTab 3 1 (Some (Fin 3))]"

text \<open>The same shape with tabs that are not yet old enough.\<close>

definition unknownBetweenLater :: "tab list" where
  "unknownBetweenLater = [mkTab 1 1 (Some (Fin 950)), mkTab 2 1 None, mkTab 3 1 (Some (Fin 900))]"

text \<open>The result of a window, which \<open>perWindowResult_total\<close> below shows to exist.\<close>

abbreviation windowInfo :: "array_sort \<Rightarrow> jsnum \<Rightarrow> settings \<Rightarrow> tab list \<Rightarrow> closeInfo" where
  "windowInfo srt now st tabs \<equiv> projr (perWindowResult srt now st tabs)"

abbreviation unpinnedCount :: "tab list \<Rightarrow> int" where
  "unpinnedCount tabs \<equiv> int (length (filter (\<lambda>t. \<not> pinned t) tabs))"

text \<open>The comparator of line 159 finds no pair of the list out of order.\<close>

abbreviation inOrder :: "tab list \<Rightarrow> bool" where
  "inOrder xs \<equiv>
     sorted_wrt (\<lambda>a b. \<not> js_gt (toNumber (lastAccessed a)) (toNumber (lastAccessed b))) xs"

section \<open>Numbers\<close>

lemma js_lt_asym: "js_lt x y \<Longrightarrow> \<not> js_lt y x"
  by (cases x; cases y) simp_all

lemma js_lt_trans_neg:
  assumes "\<not> js_lt x y" and "\<not> js_lt y z" and "y \<noteq> NaN"
  shows "\<not> js_lt x z"
  using assms by (cases x; cases y; cases z) simp_all

lemma js_lt_ntrans:
  "y \<noteq> NaN \<Longrightarrow> \<not> js_lt y x \<Longrightarrow> \<not> js_lt z y \<Longrightarrow> \<not> js_lt z x"
  by (cases x; cases y; cases z) simp_all

lemma js_add_mono: "\<not> js_lt a b \<Longrightarrow> \<not> js_lt (js_add a m) (js_add b m)"
  by (cases a; cases b; cases m) simp_all

lemma js_min2_cases:
  assumes "x \<noteq> NaN" and "y \<noteq> NaN"
  shows "js_min2 x y \<noteq> NaN \<and> (js_min2 x y = x \<or> js_min2 x y = y)
    \<and> \<not> js_lt x (js_min2 x y) \<and> \<not> js_lt y (js_min2 x y)"
  using assms by (cases x; cases y) (simp_all add: js_min2_def)

lemma math_min_props:
  assumes "NaN \<notin> set xs"
  shows "math_min xs \<noteq> NaN \<and> (math_min xs = PInf \<or> math_min xs \<in> set xs)
    \<and> (\<forall>x\<in>set xs. \<not> js_lt x (math_min xs))"
  using assms
proof (induction xs)
  case Nil
  then show ?case by simp
next
  case (Cons a xs)
  then have a: "a \<noteq> NaN" and ih: "math_min xs \<noteq> NaN"
    "math_min xs = PInf \<or> math_min xs \<in> set xs" "\<forall>x\<in>set xs. \<not> js_lt x (math_min xs)"
    by auto
  note m = js_min2_cases [OF a ih(1)]
  have "\<forall>x\<in>set xs. \<not> js_lt x (js_min2 a (math_min xs))"
    using ih(3) m ih(1) js_lt_trans_neg by blast
  with m ih(2) show ?case by auto
qed

section \<open>The sample sorts\<close>

lemma mset_insert_item: "mset (insert_item cmp x xs) = add_mset x (mset xs)"
  by (induction xs) simp_all

lemma set_insert_item: "set (insert_item cmp x xs) = insert x (set xs)"
  using mset_insert_item [of cmp x xs] by (metis set_mset_add_mset_insert set_mset_mset)

lemma mset_foldl_insert_item:
  "mset (foldl (\<lambda>prefix item. insert_item cmp item prefix) acc xs) = mset acc + mset xs"
  by (induction xs arbitrary: acc) (simp_all add: mset_insert_item)

text \<open>Both permute their input, whatever the comparator answers.\<close>

lemma mset_sortMovingOnPositive: "mset (sortMovingOnPositive cmp xs) = mset xs"
  by (simp add: sortMovingOnPositive_def mset_foldl_insert_item)

lemma mset_sortMovingOnNegative: "mset (sortMovingOnNegative cmp xs) = mset xs"
  by (simp add: sortMovingOnNegative_def)

text \<open>
  On elements that the comparator orders (it is asymmetric and "not after" is
  transitive), \<open>sortMovingOnPositive\<close> keeps the reversed prefix in descending order and
  returns an ascending list.
\<close>

lemma sorted_insert_item:
  assumes asym: "\<And>a b. a \<in> S \<Longrightarrow> b \<in> S \<Longrightarrow> cmp a b \<Longrightarrow> \<not> cmp b a"
    and ntrans: "\<And>a b c. a \<in> S \<Longrightarrow> b \<in> S \<Longrightarrow> c \<in> S \<Longrightarrow> \<not> cmp a b \<Longrightarrow> \<not> cmp b c \<Longrightarrow> \<not> cmp a c"
    and "x \<in> S" and "set xs \<subseteq> S"
    and "sorted_wrt (\<lambda>a b. \<not> cmp b a) xs"
  shows "sorted_wrt (\<lambda>a b. \<not> cmp b a) (insert_item cmp x xs)"
  using assms(3-)
proof (induction xs)
  case Nil
  then show ?case by simp
next
  case (Cons s rest)
  show ?case
  proof (cases "cmp s x")
    case True
    have "\<not> cmp x s" using asym [of s x] True Cons.prems by simp
    moreover have "\<forall>y\<in>set rest. \<not> cmp y s" using Cons.prems by simp
    moreover have "sorted_wrt (\<lambda>a b. \<not> cmp b a) (insert_item cmp x rest)"
      using Cons by simp
    ultimately show ?thesis using True by (simp add: set_insert_item)
  next
    case False
    have "\<forall>y\<in>set rest. \<not> cmp y x"
    proof
      fix y assume y: "y \<in> set rest"
      then have "\<not> cmp y s" using Cons.prems by simp
      with False show "\<not> cmp y x" using ntrans [of y s x] y Cons.prems by auto
    qed
    with False Cons.prems show ?thesis by simp
  qed
qed

lemma sorted_foldl_insert_item:
  assumes asym: "\<And>a b. a \<in> S \<Longrightarrow> b \<in> S \<Longrightarrow> cmp a b \<Longrightarrow> \<not> cmp b a"
    and ntrans: "\<And>a b c. a \<in> S \<Longrightarrow> b \<in> S \<Longrightarrow> c \<in> S \<Longrightarrow> \<not> cmp a b \<Longrightarrow> \<not> cmp b c \<Longrightarrow> \<not> cmp a c"
    and "set xs \<subseteq> S" and "set acc \<subseteq> S"
    and "sorted_wrt (\<lambda>a b. \<not> cmp b a) acc"
  shows "sorted_wrt (\<lambda>a b. \<not> cmp b a) (foldl (\<lambda>prefix item. insert_item cmp item prefix) acc xs)"
  using assms(3-)
proof (induction xs arbitrary: acc)
  case Nil
  then show ?case by simp
next
  case (Cons x xs)
  have x: "x \<in> S" and acc: "set acc \<subseteq> S" "sorted_wrt (\<lambda>a b. \<not> cmp b a) acc"
    using Cons.prems by simp_all
  have "sorted_wrt (\<lambda>a b. \<not> cmp b a) (insert_item cmp x acc)"
    using asym ntrans x acc by (rule sorted_insert_item [where S = S])
  moreover have "set (insert_item cmp x acc) \<subseteq> S"
    using Cons.prems by (simp add: set_insert_item)
  ultimately show ?case using Cons.IH [of "insert_item cmp x acc"] Cons.prems by simp
qed

lemma sorted_sortMovingOnPositive:
  assumes asym: "\<And>a b. a \<in> set xs \<Longrightarrow> b \<in> set xs \<Longrightarrow> cmp a b \<Longrightarrow> \<not> cmp b a"
    and ntrans: "\<And>a b c. a \<in> set xs \<Longrightarrow> b \<in> set xs \<Longrightarrow> c \<in> set xs \<Longrightarrow> \<not> cmp a b \<Longrightarrow> \<not> cmp b c \<Longrightarrow> \<not> cmp a c"
  shows "sorted_wrt (\<lambda>a b. \<not> cmp a b) (sortMovingOnPositive cmp xs)"
proof -
  have "set xs \<subseteq> set xs" "set [] \<subseteq> set xs" "sorted_wrt (\<lambda>a b. \<not> cmp b a) []"
    by simp_all
  with asym ntrans
  have "sorted_wrt (\<lambda>a b. \<not> cmp b a) (foldl (\<lambda>prefix item. insert_item cmp item prefix) [] xs)"
    by (rule sorted_foldl_insert_item [where S = "set xs"])
  then show ?thesis by (simp add: sortMovingOnPositive_def sorted_wrt_rev)
qed

text \<open>So with every \<^verbatim>\<open>lastAccessed\<close> a number it puts the candidates of a window in
  order.\<close>

lemma inOrder_sortMovingOnPositive:
  assumes "\<forall>t\<in>set xs. toNumber (lastAccessed t) \<noteq> NaN"
  shows "inOrder (closeableTabs sortMovingOnPositive st xs)"
proof -
  let ?cmp = "\<lambda>t1 t2. js_gt (toNumber (lastAccessed t1)) (toNumber (lastAccessed t2))"
  show ?thesis unfolding closeableTabs_def
  proof (rule sorted_sortMovingOnPositive)
    fix a b assume "?cmp a b"
    then show "\<not> ?cmp b a" by (simp add: js_gt_def js_lt_asym)
  next
    fix a b c
    assume "b \<in> set (filter (closeableTab st) xs)" "\<not> ?cmp a b" "\<not> ?cmp b c"
    then show "\<not> ?cmp a c"
      using assms js_lt_ntrans [of "toNumber (lastAccessed b)" "toNumber (lastAccessed a)"
          "toNumber (lastAccessed c)"]
      by (auto simp: js_gt_def)
  qed
qed

lemma distinct_array_from_set: "distinct (array_from_set xs)"
  by (simp add: array_from_set_def)

lemma set_array_from_set: "set (array_from_set xs) = set xs"
  by (simp add: array_from_set_def)

section \<open>One window\<close>

text \<open>A sort that permutes keeps the candidates and adds none.\<close>

lemma set_closeableTabs:
  assumes perm: "\<And>cmp xs. mset (srt cmp xs) = mset xs"
  shows "set (closeableTabs srt st xs) = {t \<in> set xs. closeableTab st t}"
proof -
  have "set (srt cmp ys) = set ys" for cmp ys
    using perm [of cmp ys] by (rule mset_eq_setD)
  then show ?thesis by (simp add: closeableTabs_def)
qed

text \<open>The three ways in which the function of a window returns.\<close>

lemma perWindowResult_cases:
  obtains
    (floor) "unpinnedCount tabs - minTabsCount st \<le> 0"
      "perWindowResult srt now st tabs = Inr \<lparr>closeTabs = [], nextCheck = PInf\<rparr>"
  | (never) "0 < unpinnedCount tabs - minTabsCount st"
      "perWindowResult srt now st tabs =
         Inr \<lparr>closeTabs = take (nat (unpinnedCount tabs - minTabsCount st))
                 (filter (\<lambda>t. js_lt (threshold st t) now)
                   (closeableTabs srt st (filter (\<lambda>t. \<not> pinned t) tabs))),
              nextCheck = PInf\<rparr>"
      "int (length (take (nat (unpinnedCount tabs - minTabsCount st))
                 (filter (\<lambda>t. js_lt (threshold st t) now)
                   (closeableTabs srt st (filter (\<lambda>t. \<not> pinned t) tabs)))))
         = unpinnedCount tabs - minTabsCount st
       \<or> filter (\<lambda>t. js_ge (threshold st t) now)
            (closeableTabs srt st (filter (\<lambda>t. \<not> pinned t) tabs)) = []"
  | (later) t later where "0 < unpinnedCount tabs - minTabsCount st"
      "filter (\<lambda>t. js_ge (threshold st t) now)
         (closeableTabs srt st (filter (\<lambda>t. \<not> pinned t) tabs)) = t # later"
      "int (length (take (nat (unpinnedCount tabs - minTabsCount st))
                 (filter (\<lambda>t. js_lt (threshold st t) now)
                   (closeableTabs srt st (filter (\<lambda>t. \<not> pinned t) tabs)))))
         \<noteq> unpinnedCount tabs - minTabsCount st"
      "perWindowResult srt now st tabs =
         Inr \<lparr>closeTabs = take (nat (unpinnedCount tabs - minTabsCount st))
                 (filter (\<lambda>t. js_lt (threshold st t) now)
                   (closeableTabs srt st (filter (\<lambda>t. \<not> pinned t) tabs))),
              nextCheck = threshold st t\<rparr>"
proof (cases "unpinnedCount tabs - minTabsCount st \<le> 0")
  case True
  then show ?thesis using floor by (simp add: perWindowResult_def)
next
  case False
  show ?thesis
  proof (cases "filter (\<lambda>t. js_ge (threshold st t) now)
      (closeableTabs srt st (filter (\<lambda>t. \<not> pinned t) tabs))")
    case Nil
    with False show ?thesis using never by (simp add: perWindowResult_def Let_def)
  next
    case (Cons t later)
    show ?thesis
    proof (cases "int (length (take (nat (unpinnedCount tabs - minTabsCount st))
                 (filter (\<lambda>t. js_lt (threshold st t) now)
                   (closeableTabs srt st (filter (\<lambda>t. \<not> pinned t) tabs)))))
         = unpinnedCount tabs - minTabsCount st")
      case True
      with False show ?thesis using never by (simp add: perWindowResult_def Let_def)
    next
      case neq: False
      with False Cons show ?thesis
        using later [of t later] by (simp add: perWindowResult_def Let_def)
    qed
  qed
qed

text \<open>The guard on the length of \<^verbatim>\<open>onlyLaterCloseableTabs\<close> keeps the index 0 in range.\<close>

lemma perWindowResult_total: "\<exists>r. perWindowResult srt now st tabs = Inr r"
  by (cases srt now st tabs rule: perWindowResult_cases) blast+

lemma perWindowResult_windowInfo:
  "perWindowResult srt now st tabs = Inr (windowInfo srt now st tabs)"
  using perWindowResult_total [of srt now st tabs] by auto

lemma perWindowResult_take:
  assumes "perWindowResult srt now st tabs = Inr r"
  shows "\<exists>n. closeTabs r = take n (filter (\<lambda>t. js_lt (threshold st t) now)
      (closeableTabs srt st (filter (\<lambda>t. \<not> pinned t) tabs)))"
proof (cases srt now st tabs rule: perWindowResult_cases)
  case floor
  with assms have "closeTabs r = []" by auto
  then show ?thesis by (metis take_0)
next
  case never
  from assms never(2) have "closeTabs r = take (nat (unpinnedCount tabs - minTabsCount st))
    (filter (\<lambda>t. js_lt (threshold st t) now)
      (closeableTabs srt st (filter (\<lambda>t. \<not> pinned t) tabs)))" by auto
  then show ?thesis by blast
next
  case (later u rest)
  from assms later(4) have "closeTabs r = take (nat (unpinnedCount tabs - minTabsCount st))
    (filter (\<lambda>t. js_lt (threshold st t) now)
      (closeableTabs srt st (filter (\<lambda>t. \<not> pinned t) tabs)))" by auto
  then show ?thesis by blast
qed

lemma perWindowResult_closeTabs_sorted:
  assumes "perWindowResult srt now st tabs = Inr r" and "t \<in> set (closeTabs r)"
  shows "t \<in> set (filter (\<lambda>t. js_lt (threshold st t) now)
      (closeableTabs srt st (filter (\<lambda>t. \<not> pinned t) tabs)))"
proof -
  from perWindowResult_take [OF assms(1)] obtain n
    where "closeTabs r = take n (filter (\<lambda>t. js_lt (threshold st t) now)
      (closeableTabs srt st (filter (\<lambda>t. \<not> pinned t) tabs)))" ..
  with assms(2) show ?thesis by (metis in_set_takeD)
qed

lemma perWindowResult_closeTabs_lt:
  assumes "perWindowResult srt now st tabs = Inr r" and "t \<in> set (closeTabs r)"
  shows "js_lt (threshold st t) now"
  using perWindowResult_closeTabs_sorted [OF assms] by simp

lemma perWindowResult_closeTabs:
  assumes perm: "\<And>cmp xs. mset (srt cmp xs) = mset xs"
    and "perWindowResult srt now st tabs = Inr r" and "t \<in> set (closeTabs r)"
  shows "t \<in> set tabs \<and> \<not> pinned t \<and> closeableTab st t \<and> js_lt (threshold st t) now"
  using perWindowResult_closeTabs_sorted [OF assms(2,3)]
  by (simp add: set_closeableTabs [OF perm])

lemma perWindowResult_length:
  assumes "perWindowResult srt now st tabs = Inr r"
  shows "int (length (closeTabs r)) \<le> max 0 (unpinnedCount tabs - minTabsCount st)"
  using assms by (cases srt now st tabs rule: perWindowResult_cases) auto

lemma perWindowResult_nextCheck_sorted:
  assumes "perWindowResult srt now st tabs = Inr r"
  shows "nextCheck r = PInf \<or>
    (\<exists>t\<in>set (filter (\<lambda>t. js_ge (threshold st t) now)
              (closeableTabs srt st (filter (\<lambda>t. \<not> pinned t) tabs))).
       nextCheck r = threshold st t)"
proof (cases srt now st tabs rule: perWindowResult_cases)
  case floor
  with assms show ?thesis by auto
next
  case never
  with assms show ?thesis by auto
next
  case (later t rest)
  have "t \<in> set (filter (\<lambda>t. js_ge (threshold st t) now)
      (closeableTabs srt st (filter (\<lambda>t. \<not> pinned t) tabs)))"
    unfolding later(2) by simp
  moreover from later(4) assms have "nextCheck r = threshold st t" by auto
  ultimately show ?thesis by blast
qed

lemma perWindowResult_nextCheck_ge:
  assumes "perWindowResult srt now st tabs = Inr r"
  shows "nextCheck r = PInf \<or> js_ge (nextCheck r) now"
  using perWindowResult_nextCheck_sorted [OF assms] by auto

lemma perWindowResult_nextCheck:
  assumes perm: "\<And>cmp xs. mset (srt cmp xs) = mset xs"
    and "perWindowResult srt now st tabs = Inr r"
  shows "nextCheck r = PInf \<or>
    (\<exists>t\<in>set tabs. \<not> pinned t \<and> closeableTab st t \<and> js_ge (threshold st t) now
       \<and> nextCheck r = threshold st t)"
  using perWindowResult_nextCheck_sorted [OF assms(2)]
  by (auto simp: set_closeableTabs [OF perm])

lemma windowInfo_nextCheck:
  assumes perm: "\<And>cmp xs. mset (srt cmp xs) = mset xs"
  shows "nextCheck (windowInfo srt now st w) = PInf \<or>
    (\<exists>t\<in>set w. \<not> pinned t \<and> closeableTab st t \<and> js_ge (threshold st t) now
       \<and> nextCheck (windowInfo srt now st w) = threshold st t)"
  using perm perWindowResult_windowInfo by (rule perWindowResult_nextCheck)

lemma windowInfo_nextCheck_ge:
  "nextCheck (windowInfo srt now st w) = PInf \<or> js_ge (nextCheck (windowInfo srt now st w)) now"
  by (rule perWindowResult_nextCheck_ge [OF perWindowResult_windowInfo])

lemma windowInfo_nextCheck_not_NaN: "nextCheck (windowInfo srt now st w) \<noteq> NaN"
  using windowInfo_nextCheck_ge [of srt now st w] by (auto simp: js_ge_def)

text \<open>In a list that is in order, the first element that passes a filter has the
  earliest threshold among those that pass.\<close>

lemma first_later_is_earliest:
  assumes sorted: "inOrder xs"
    and hd: "filter P xs = h # rest"
    and u: "u \<in> set (filter P xs)"
  shows "\<not> js_lt (threshold st u) (threshold st h)"
proof -
  have "inOrder (filter P xs)" using sorted by (rule sorted_wrt_filter)
  then have rest: "\<forall>y\<in>set rest. \<not> js_lt (toNumber (lastAccessed y)) (toNumber (lastAccessed h))"
    unfolding hd by (simp add: js_gt_def)
  from u have "u = h \<or> u \<in> set rest" unfolding hd by simp
  then have "\<not> js_lt (toNumber (lastAccessed u)) (toNumber (lastAccessed h))"
    using rest js_lt_asym by blast
  then show ?thesis unfolding threshold_def by (rule js_add_mono)
qed

section \<open>All windows\<close>

lemma collect_map_Inr:
  assumes "\<forall>x\<in>set xs. \<exists>y. f x = Inr y"
  shows "collect (map f xs) = Inr (map (\<lambda>x. projr (f x)) xs)"
  using assms by (induction xs) auto

lemma tabsToClose_eq:
  "tabsToClose srt now st tabs =
     Inr \<lparr>closeTabs = concat (map (\<lambda>w. closeTabs (windowInfo srt now st w)) (tabsByWindow tabs)),
          nextCheck = math_min (map (\<lambda>w. nextCheck (windowInfo srt now st w)) (tabsByWindow tabs))\<rparr>"
proof -
  have "collect (map (perWindowResult srt now st) (tabsByWindow tabs))
      = Inr (map (windowInfo srt now st) (tabsByWindow tabs))"
    by (rule collect_map_Inr) (simp add: perWindowResult_total)
  then show ?thesis by (simp add: tabsToClose_def comp_def)
qed

lemma tabsToClose_total: "\<exists>r. tabsToClose srt now st tabs = Inr r"
  by (simp add: tabsToClose_eq)

lemma set_tabsByWindow: "w \<in> set (tabsByWindow tabs) \<Longrightarrow> set w \<subseteq> set tabs"
  by (auto simp: tabsByWindow_def)

lemma mem_tabsByWindow:
  "t \<in> set tabs \<Longrightarrow> filter (\<lambda>c. windowId c = windowId t) tabs \<in> set (tabsByWindow tabs)"
  by (auto simp: tabsByWindow_def set_array_from_set)

lemma filter_concat_distinct:
  assumes "distinct ws" and "\<forall>w\<in>set ws. \<forall>t\<in>set (f w). key t = w"
  shows "filter (\<lambda>t. key t = w) (concat (map f ws)) = (if w \<in> set ws then f w else [])"
  using assms
proof (induction ws)
  case Nil
  then show ?case by simp
next
  case (Cons a ws)
  have own: "filter (\<lambda>t. key t = a) (f a) = f a"
    using Cons.prems(2) by (simp add: filter_id_conv)
  have other: "w \<in> set ws \<Longrightarrow> filter (\<lambda>t. key t = w) (f a) = []"
    using Cons.prems by (auto simp: filter_empty_conv)
  from Cons show ?case by (auto simp: own other)
qed

text \<open>The tabs of window \<open>w\<close> in the close-set are the close-set of that window.\<close>

lemma closeTabs_of_window:
  assumes perm: "\<And>cmp xs. mset (srt cmp xs) = mset xs"
    and "tabsToClose srt now st tabs = Inr r"
  shows "filter (\<lambda>t. windowId t = w) (closeTabs r) =
    (if w \<in> windowId ` set tabs
     then closeTabs (windowInfo srt now st (filter (\<lambda>t. windowId t = w) tabs)) else [])"
proof -
  let ?f = "\<lambda>w. closeTabs (windowInfo srt now st (filter (\<lambda>t. windowId t = w) tabs))"
  have r: "closeTabs r = concat (map ?f (array_from_set (map windowId tabs)))"
    using assms(2) by (auto simp: tabsToClose_eq tabsByWindow_def comp_def)
  have "\<forall>v\<in>set (array_from_set (map windowId tabs)). \<forall>t\<in>set (?f v). windowId t = v"
    using perWindowResult_closeTabs [OF perm perWindowResult_windowInfo] by fastforce
  from filter_concat_distinct [OF distinct_array_from_set this, of w]
  show ?thesis by (simp add: r set_array_from_set)
qed

lemma closeTabs_global_lt:
  assumes "tabsToClose srt now st tabs = Inr r" and "t \<in> set (closeTabs r)"
  shows "js_lt (threshold st t) now"
proof -
  from assms obtain w where "t \<in> set (closeTabs (windowInfo srt now st w))"
    by (auto simp: tabsToClose_eq)
  with perWindowResult_windowInfo show ?thesis by (rule perWindowResult_closeTabs_lt)
qed

lemma nextCheck_global:
  assumes "tabsToClose srt now st tabs = Inr r"
  shows "nextCheck r \<noteq> NaN"
    and "nextCheck r = PInf \<or>
      (\<exists>w\<in>set (tabsByWindow tabs). nextCheck r = nextCheck (windowInfo srt now st w))"
    and "\<forall>w\<in>set (tabsByWindow tabs). \<not> js_lt (nextCheck (windowInfo srt now st w)) (nextCheck r)"
proof -
  let ?xs = "map (\<lambda>w. nextCheck (windowInfo srt now st w)) (tabsByWindow tabs)"
  have r: "nextCheck r = math_min ?xs" using assms by (auto simp: tabsToClose_eq)
  have "NaN \<notin> set ?xs"
    using windowInfo_nextCheck_not_NaN by (metis (no_types, lifting) imageE list.set_map)
  note m = math_min_props [OF this]
  show "nextCheck r \<noteq> NaN" using m r by simp
  show "nextCheck r = PInf \<or>
      (\<exists>w\<in>set (tabsByWindow tabs). nextCheck r = nextCheck (windowInfo srt now st w))"
    using m r by auto
  show "\<forall>w\<in>set (tabsByWindow tabs). \<not> js_lt (nextCheck (windowInfo srt now st w)) (nextCheck r)"
    using m r by auto
qed

lemma nextCheck_ge_now:
  assumes "tabsToClose srt now st tabs = Inr r"
  shows "nextCheck r = PInf \<or> js_ge (nextCheck r) now"
  using nextCheck_global(2) [OF assms] windowInfo_nextCheck_ge [of srt now st] by metis

lemma nextCheck_from_tab:
  assumes perm: "\<And>cmp xs. mset (srt cmp xs) = mset xs"
    and "tabsToClose srt now st tabs = Inr r"
  shows "nextCheck r = PInf \<or>
    (\<exists>t\<in>set tabs. \<not> pinned t \<and> closeableTab st t \<and> js_ge (threshold st t) now
       \<and> nextCheck r = threshold st t)"
proof (cases "nextCheck r = PInf")
  case True
  then show ?thesis by simp
next
  case False
  with nextCheck_global(2) [OF assms(2)] obtain w where w: "w \<in> set (tabsByWindow tabs)"
    and eq: "nextCheck r = nextCheck (windowInfo srt now st w)" by blast
  with False windowInfo_nextCheck [of srt now st w, OF perm] obtain t where "t \<in> set w" "\<not> pinned t"
    "closeableTab st t" "js_ge (threshold st t) now" "nextCheck r = threshold st t" by auto
  with set_tabsByWindow [OF w] show ?thesis by blast
qed

section \<open>History\<close>

lemma filter_throwing_Inr:
  assumes "\<forall>x\<in>set xs. p x = Inr (q x)"
  shows "filter_throwing p xs = Inr (filter q xs)"
  using assms by (induction xs) auto

lemma saveableTab_spec:
  assumes "\<forall>u. title t \<noteq> None \<and> url t = Some u \<longrightarrow> protocolOf u \<noteq> None"
  shows "saveableTab protocolOf t = Inr (saveableSpec protocolOf t)"
  using assms by (auto simp: saveableTab_def saveableSpec_def split: option.splits)

section \<open>The engine on the sample inputs\<close>

lemma tabsToClose_laterOnly:
  "tabsToClose sortMovingOnPositive (Fin 1000) (mkSettings 1 2) laterOnly
     = Inr \<lparr>closeTabs = [], nextCheck = Fin 1500\<rparr>"
  by code_simp

lemma tabsToClose_twoWindows:
  "tabsToClose sortMovingOnPositive (Fin 1000) (mkSettings 1 2) twoWindows
     = Inr \<lparr>closeTabs = [mkTab 1 1 (Some (Fin 100))], nextCheck = Fin 1500\<rparr>"
  by code_simp

text \<open>
  A tab without \<^verbatim>\<open>lastAccessed\<close> passes the first filter, and every comparison with it
  answers false: neither sort moves the later tab with the earlier threshold (1500) in
  front of the one with the later threshold (1550), and the next check is taken from the
  wrong tab.
\<close>

lemma tabsToClose_unknownBetweenLater:
  "tabsToClose sortMovingOnPositive (Fin 1000) (mkSettings 1 2) unknownBetweenLater
     = Inr \<lparr>closeTabs = [], nextCheck = Fin 1550\<rparr>
   \<and> tabsToClose sortMovingOnNegative (Fin 1000) (mkSettings 1 2) unknownBetweenLater
     = Inr \<lparr>closeTabs = [], nextCheck = Fin 1550\<rparr>
   \<and> threshold (mkSettings 1 2) (mkTab 3 1 (Some (Fin 900))) = Fin 1500"
  by code_simp

text \<open>
  With every \<^verbatim>\<open>lastAccessed\<close> a number, a sort that moves only on a negative answer
  closes the younger of two old tabs when it comes first.
\<close>

lemma tabsToClose_descending_unmoved:
  "tabsToClose sortMovingOnNegative (Fin 1000) (mkSettings 1 2)
       [mkTab 1 1 (Some (Fin 5)), mkTab 2 1 (Some (Fin 3))]
     = Inr \<lparr>closeTabs = [mkTab 1 1 (Some (Fin 5))], nextCheck = PInf\<rparr>"
  by code_simp

section \<open>Properties\<close>

text \<open>
  C1. Floor invariant. With any sort that permutes its input, the engine returns, and for
  every window \<open>w\<close> the number of unpinned tabs of \<open>w\<close> minus the number of tabs of \<open>w\<close> in
  the close-set is at least the minimum of \<^verbatim>\<open>minTabsCount\<close> and the number of unpinned
  tabs; equivalently the window contributes at most \<open>max 0 (unpinned - minTabsCount)\<close> tabs.
\<close>

theorem floor_invariant:
  assumes perm: "\<And>cmp xs. mset (srt cmp xs) = mset xs"
  shows "\<exists>r. tabsToClose srt now st tabs = Inr r \<and>
     (\<forall>w. min (minTabsCount st) (int (length (filter (\<lambda>t. windowId t = w \<and> \<not> pinned t) tabs)))
            \<le> int (length (filter (\<lambda>t. windowId t = w \<and> \<not> pinned t) tabs))
               - int (length (filter (\<lambda>t. windowId t = w) (closeTabs r)))
        \<and> int (length (filter (\<lambda>t. windowId t = w) (closeTabs r)))
            \<le> max 0 (int (length (filter (\<lambda>t. windowId t = w \<and> \<not> pinned t) tabs))
                       - minTabsCount st))"
proof -
  obtain r where r: "tabsToClose srt now st tabs = Inr r" using tabsToClose_total by blast
  have bound: "int (length (filter (\<lambda>t. windowId t = w) (closeTabs r)))
      \<le> max 0 (int (length (filter (\<lambda>t. windowId t = w \<and> \<not> pinned t) tabs)) - minTabsCount st)"
    for w
  proof -
    have unp: "filter (\<lambda>t. \<not> pinned t) (filter (\<lambda>t. windowId t = w) tabs)
        = filter (\<lambda>t. windowId t = w \<and> \<not> pinned t) tabs"
      by (simp add: conj_commute)
    show ?thesis
      using perWindowResult_length [OF perWindowResult_windowInfo,
          of srt now st "filter (\<lambda>t. windowId t = w) tabs"]
      by (simp add: closeTabs_of_window [OF perm r] unp)
  qed
  have "min (minTabsCount st) (int (length (filter (\<lambda>t. windowId t = w \<and> \<not> pinned t) tabs)))
            \<le> int (length (filter (\<lambda>t. windowId t = w \<and> \<not> pinned t) tabs))
               - int (length (filter (\<lambda>t. windowId t = w) (closeTabs r)))
        \<and> int (length (filter (\<lambda>t. windowId t = w) (closeTabs r)))
            \<le> max 0 (int (length (filter (\<lambda>t. windowId t = w \<and> \<not> pinned t) tabs))
                       - minTabsCount st)" for w
    using bound [of w] by linarith
  with r show ?thesis by blast
qed

text \<open>C1 on the first of the two sample windows, with either sample sort: two unpinned
  tabs, a floor of one, one tab closed.\<close>

theorem floor_invariant_witness:
  "(\<exists>r. tabsToClose sortMovingOnPositive (Fin 1000) (mkSettings 1 2) twoWindows = Inr r
      \<and> int (length (filter (\<lambda>t. windowId t = 1) (closeTabs r))) = 1
      \<and> min (minTabsCount (mkSettings 1 2))
            (int (length (filter (\<lambda>t. windowId t = 1 \<and> \<not> pinned t) twoWindows)))
          \<le> int (length (filter (\<lambda>t. windowId t = 1 \<and> \<not> pinned t) twoWindows))
             - int (length (filter (\<lambda>t. windowId t = 1) (closeTabs r))))
   \<and> (\<exists>r. tabsToClose sortMovingOnNegative (Fin 1000) (mkSettings 1 2) twoWindows = Inr r
      \<and> min (minTabsCount (mkSettings 1 2))
            (int (length (filter (\<lambda>t. windowId t = 1 \<and> \<not> pinned t) twoWindows)))
          \<le> int (length (filter (\<lambda>t. windowId t = 1 \<and> \<not> pinned t) twoWindows))
             - int (length (filter (\<lambda>t. windowId t = 1) (closeTabs r))))"
proof (rule conjI)
  from floor_invariant [of sortMovingOnPositive "Fin 1000" "mkSettings 1 2" twoWindows,
      OF mset_sortMovingOnPositive]
  obtain r where r: "tabsToClose sortMovingOnPositive (Fin 1000) (mkSettings 1 2) twoWindows = Inr r"
    and fl: "min (minTabsCount (mkSettings 1 2))
            (int (length (filter (\<lambda>t. windowId t = 1 \<and> \<not> pinned t) twoWindows)))
          \<le> int (length (filter (\<lambda>t. windowId t = 1 \<and> \<not> pinned t) twoWindows))
             - int (length (filter (\<lambda>t. windowId t = 1) (closeTabs r)))"
    by blast
  from r tabsToClose_twoWindows
  have val: "r = \<lparr>closeTabs = [mkTab 1 1 (Some (Fin 100))], nextCheck = Fin 1500\<rparr>" by auto
  have "int (length (filter (\<lambda>t. windowId t = 1) (closeTabs r))) = 1"
    unfolding val by code_simp
  with r fl
  show "\<exists>r. tabsToClose sortMovingOnPositive (Fin 1000) (mkSettings 1 2) twoWindows = Inr r
      \<and> int (length (filter (\<lambda>t. windowId t = 1) (closeTabs r))) = 1
      \<and> min (minTabsCount (mkSettings 1 2))
            (int (length (filter (\<lambda>t. windowId t = 1 \<and> \<not> pinned t) twoWindows)))
          \<le> int (length (filter (\<lambda>t. windowId t = 1 \<and> \<not> pinned t) twoWindows))
             - int (length (filter (\<lambda>t. windowId t = 1) (closeTabs r)))"
    by blast
next
  from floor_invariant [of sortMovingOnNegative "Fin 1000" "mkSettings 1 2" twoWindows,
      OF mset_sortMovingOnNegative]
  show "\<exists>r. tabsToClose sortMovingOnNegative (Fin 1000) (mkSettings 1 2) twoWindows = Inr r
      \<and> min (minTabsCount (mkSettings 1 2))
            (int (length (filter (\<lambda>t. windowId t = 1 \<and> \<not> pinned t) twoWindows)))
          \<le> int (length (filter (\<lambda>t. windowId t = 1 \<and> \<not> pinned t) twoWindows))
             - int (length (filter (\<lambda>t. windowId t = 1) (closeTabs r)))"
    by blast
qed

text \<open>
  C2, as amended. With any sort that permutes its input, the engine returns, and its next
  check is an instant, not a delay. When the next check is below \<^verbatim>\<open>Infinity\<close>, some
  unpinned candidate that closes later has its threshold
  (\<^verbatim>\<open>lastAccessed + minInactiveMilliseconds\<close>) exactly at the next check. No unpinned
  candidate that closes later has its threshold strictly before the next check, provided
  that its window has budget that the close-set leaves unspent and that the sort has
  returned the candidates of its window in order (no tab before one with a smaller
  \<^verbatim>\<open>lastAccessed\<close>). What the next check is when the sort leaves them out of order is not
  stated.
\<close>

theorem next_check_tight:
  assumes perm: "\<And>cmp xs. mset (srt cmp xs) = mset xs"
  shows "\<exists>r. tabsToClose srt now st tabs = Inr r \<and>
     (js_lt (nextCheck r) PInf \<longrightarrow>
        (\<exists>t\<in>set tabs. \<not> pinned t \<and> closeableTab st t \<and> js_ge (threshold st t) now
            \<and> threshold st t = nextCheck r)
      \<and> (\<forall>t\<in>set tabs.
             \<not> pinned t \<and> closeableTab st t \<and> js_ge (threshold st t) now
             \<and> 0 < int (length (filter (\<lambda>c. windowId c = windowId t \<and> \<not> pinned c) tabs))
                     - minTabsCount st
             \<and> int (length (filter (\<lambda>c. windowId c = windowId t) (closeTabs r)))
                 \<noteq> int (length (filter (\<lambda>c. windowId c = windowId t \<and> \<not> pinned c) tabs))
                     - minTabsCount st
             \<and> inOrder (closeableTabs srt st
                   (filter (\<lambda>c. windowId c = windowId t \<and> \<not> pinned c) tabs))
             \<longrightarrow> \<not> js_lt (threshold st t) (nextCheck r)))"
proof -
  obtain r where r: "tabsToClose srt now st tabs = Inr r" using tabsToClose_total by blast
  have exact: "\<exists>t\<in>set tabs. \<not> pinned t \<and> closeableTab st t \<and> js_ge (threshold st t) now
            \<and> threshold st t = nextCheck r" if fin: "js_lt (nextCheck r) PInf"
  proof -
    from fin have "nextCheck r \<noteq> PInf" by auto
    with nextCheck_from_tab [OF perm r] show ?thesis by force
  qed
  have early: "\<not> js_lt (threshold st t) (nextCheck r)"
    if t: "t \<in> set tabs"
      and h: "\<not> pinned t \<and> closeableTab st t \<and> js_ge (threshold st t) now
           \<and> 0 < int (length (filter (\<lambda>c. windowId c = windowId t \<and> \<not> pinned c) tabs))
                   - minTabsCount st
           \<and> int (length (filter (\<lambda>c. windowId c = windowId t) (closeTabs r)))
               \<noteq> int (length (filter (\<lambda>c. windowId c = windowId t \<and> \<not> pinned c) tabs))
                   - minTabsCount st
           \<and> inOrder (closeableTabs srt st
                 (filter (\<lambda>c. windowId c = windowId t \<and> \<not> pinned c) tabs))"
    for t
  proof -
    let ?w = "filter (\<lambda>c. windowId c = windowId t) tabs"
    let ?unp = "filter (\<lambda>c. \<not> pinned c) ?w"
    have unp: "?unp = filter (\<lambda>c. windowId c = windowId t \<and> \<not> pinned c) tabs"
      by (simp add: conj_commute)
    have w: "?w \<in> set (tabsByWindow tabs)" by (rule mem_tabsByWindow [OF t])
    have closed: "filter (\<lambda>c. windowId c = windowId t) (closeTabs r)
        = closeTabs (windowInfo srt now st ?w)"
      using closeTabs_of_window [OF perm r, of "windowId t"] t by simp
    have budget: "0 < int (length ?unp) - minTabsCount st"
      and left: "int (length (closeTabs (windowInfo srt now st ?w)))
          \<noteq> int (length ?unp) - minTabsCount st"
      using h by (simp_all add: unp closed)
    have ord: "inOrder (closeableTabs srt st ?unp)" using h by (simp add: unp)
    have tl: "t \<in> set (filter (\<lambda>c. js_ge (threshold st c) now) (closeableTabs srt st ?unp))"
      using h t by (simp add: set_closeableTabs [OF perm])
    have "\<exists>hd rest.
        filter (\<lambda>c. js_ge (threshold st c) now) (closeableTabs srt st ?unp) = hd # rest
        \<and> nextCheck (windowInfo srt now st ?w) = threshold st hd"
    proof (cases srt now st ?w rule: perWindowResult_cases)
      case floor
      with budget show ?thesis by simp
    next
      case never
      from never(2) have "closeTabs (windowInfo srt now st ?w) =
          take (nat (int (length ?unp) - minTabsCount st))
            (filter (\<lambda>t. js_lt (threshold st t) now) (closeableTabs srt st ?unp))" by simp
      with left have "int (length (take (nat (int (length ?unp) - minTabsCount st))
            (filter (\<lambda>t. js_lt (threshold st t) now) (closeableTabs srt st ?unp))))
          \<noteq> int (length ?unp) - minTabsCount st" by metis
      moreover from tl
      have "filter (\<lambda>c. js_ge (threshold st c) now) (closeableTabs srt st ?unp) \<noteq> []"
        by (metis empty_iff empty_set)
      ultimately show ?thesis using never(3) by blast
    next
      case (later hd rest)
      from later(4) have "nextCheck (windowInfo srt now st ?w) = threshold st hd" by simp
      with later(2) show ?thesis by blast
    qed
    then obtain hd rest where
      hd: "filter (\<lambda>c. js_ge (threshold st c) now) (closeableTabs srt st ?unp) = hd # rest"
      and nc: "nextCheck (windowInfo srt now st ?w) = threshold st hd" by blast
    have 1: "\<not> js_lt (threshold st t) (threshold st hd)"
      using ord hd tl by (rule first_later_is_earliest)
    have 2: "\<not> js_lt (threshold st hd) (nextCheck r)"
      using nextCheck_global(3) [OF r] w nc by metis
    have 3: "threshold st hd \<noteq> NaN"
      using windowInfo_nextCheck_not_NaN [of srt now st ?w] nc by simp
    from 1 2 3 show ?thesis by (rule js_lt_trans_neg)
  qed
  from r exact early show ?thesis by blast
qed

text \<open>
  The amended C2 on the two sample windows, with the sort that moves on a positive answer:
  the next check is the instant 1500, the threshold of tab 3; the candidates of the second
  window come back in order, and tab 4, a later candidate of that window, whose budget is
  unspent, crosses at 1550, not before.
\<close>

theorem next_check_tight_witness:
  "inOrder (closeableTabs sortMovingOnPositive (mkSettings 1 2)
       (filter (\<lambda>c. windowId c = 2 \<and> \<not> pinned c) twoWindows))
   \<and> (\<exists>r. tabsToClose sortMovingOnPositive (Fin 1000) (mkSettings 1 2) twoWindows = Inr r
        \<and> js_lt (nextCheck r) PInf
        \<and> mkTab 4 2 (Some (Fin 950)) \<in> set twoWindows
        \<and> 0 < int (length (filter (\<lambda>c. windowId c = 2 \<and> \<not> pinned c) twoWindows))
                - minTabsCount (mkSettings 1 2)
        \<and> int (length (filter (\<lambda>c. windowId c = 2) (closeTabs r)))
            \<noteq> int (length (filter (\<lambda>c. windowId c = 2 \<and> \<not> pinned c) twoWindows))
                - minTabsCount (mkSettings 1 2)
        \<and> nextCheck r \<in> set (map (threshold (mkSettings 1 2)) twoWindows)
        \<and> \<not> js_lt (threshold (mkSettings 1 2) (mkTab 4 2 (Some (Fin 950)))) (nextCheck r))"
proof -
  let ?st = "mkSettings 1 2" and ?t = "mkTab 4 2 (Some (Fin 950))"
  let ?srt = "sortMovingOnPositive :: array_sort"
  from next_check_tight [of ?srt "Fin 1000" ?st twoWindows, OF mset_sortMovingOnPositive]
  obtain r
    where r: "tabsToClose ?srt (Fin 1000) ?st twoWindows = Inr r"
      and concl: "js_lt (nextCheck r) PInf \<longrightarrow>
        (\<exists>t\<in>set twoWindows. \<not> pinned t \<and> closeableTab ?st t \<and> js_ge (threshold ?st t) (Fin 1000)
            \<and> threshold ?st t = nextCheck r)
      \<and> (\<forall>t\<in>set twoWindows.
             \<not> pinned t \<and> closeableTab ?st t \<and> js_ge (threshold ?st t) (Fin 1000)
             \<and> 0 < int (length (filter (\<lambda>c. windowId c = windowId t \<and> \<not> pinned c) twoWindows))
                     - minTabsCount ?st
             \<and> int (length (filter (\<lambda>c. windowId c = windowId t) (closeTabs r)))
                 \<noteq> int (length (filter (\<lambda>c. windowId c = windowId t \<and> \<not> pinned c) twoWindows))
                     - minTabsCount ?st
             \<and> inOrder (closeableTabs ?srt ?st
                   (filter (\<lambda>c. windowId c = windowId t \<and> \<not> pinned c) twoWindows))
             \<longrightarrow> \<not> js_lt (threshold ?st t) (nextCheck r))"
    by blast
  from r tabsToClose_twoWindows
  have val: "r = \<lparr>closeTabs = [mkTab 1 1 (Some (Fin 100))], nextCheck = Fin 1500\<rparr>" by auto
  have fin: "js_lt (nextCheck r) PInf" unfolding val by simp
  have mem: "?t \<in> set twoWindows" by code_simp
  have wid: "windowId ?t = 2" by code_simp
  have c1: "\<not> pinned ?t" by code_simp
  have c2: "closeableTab ?st ?t" by code_simp
  have c3: "js_ge (threshold ?st ?t) (Fin 1000)" by code_simp
  have budget: "0 < int (length (filter (\<lambda>c. windowId c = 2 \<and> \<not> pinned c) twoWindows))
      - minTabsCount ?st" by code_simp
  have left: "int (length (filter (\<lambda>c. windowId c = 2) (closeTabs r)))
      \<noteq> int (length (filter (\<lambda>c. windowId c = 2 \<and> \<not> pinned c) twoWindows)) - minTabsCount ?st"
    unfolding val by code_simp
  have ord: "inOrder (closeableTabs ?srt ?st
      (filter (\<lambda>c. windowId c = 2 \<and> \<not> pinned c) twoWindows))" by code_simp
  from concl fin have "\<exists>t\<in>set twoWindows. threshold ?st t = nextCheck r" by blast
  then have exact: "nextCheck r \<in> set (map (threshold ?st) twoWindows)"
    by (metis image_eqI list.set_map)
  from concl fin have "\<forall>t\<in>set twoWindows.
             \<not> pinned t \<and> closeableTab ?st t \<and> js_ge (threshold ?st t) (Fin 1000)
             \<and> 0 < int (length (filter (\<lambda>c. windowId c = windowId t \<and> \<not> pinned c) twoWindows))
                     - minTabsCount ?st
             \<and> int (length (filter (\<lambda>c. windowId c = windowId t) (closeTabs r)))
                 \<noteq> int (length (filter (\<lambda>c. windowId c = windowId t \<and> \<not> pinned c) twoWindows))
                     - minTabsCount ?st
             \<and> inOrder (closeableTabs ?srt ?st
                   (filter (\<lambda>c. windowId c = windowId t \<and> \<not> pinned c) twoWindows))
             \<longrightarrow> \<not> js_lt (threshold ?st t) (nextCheck r)" by (rule conjunct2 [OF mp])
  from this mem have inst: "\<not> pinned ?t \<and> closeableTab ?st ?t \<and> js_ge (threshold ?st ?t) (Fin 1000)
             \<and> 0 < int (length (filter (\<lambda>c. windowId c = windowId ?t \<and> \<not> pinned c) twoWindows))
                     - minTabsCount ?st
             \<and> int (length (filter (\<lambda>c. windowId c = windowId ?t) (closeTabs r)))
                 \<noteq> int (length (filter (\<lambda>c. windowId c = windowId ?t \<and> \<not> pinned c) twoWindows))
                     - minTabsCount ?st
             \<and> inOrder (closeableTabs ?srt ?st
                   (filter (\<lambda>c. windowId c = windowId ?t \<and> \<not> pinned c) twoWindows))
             \<longrightarrow> \<not> js_lt (threshold ?st ?t) (nextCheck r)" by (rule bspec)
  have prem: "\<not> pinned ?t \<and> closeableTab ?st ?t \<and> js_ge (threshold ?st ?t) (Fin 1000)
             \<and> 0 < int (length (filter (\<lambda>c. windowId c = windowId ?t \<and> \<not> pinned c) twoWindows))
                     - minTabsCount ?st
             \<and> int (length (filter (\<lambda>c. windowId c = windowId ?t) (closeTabs r)))
                 \<noteq> int (length (filter (\<lambda>c. windowId c = windowId ?t \<and> \<not> pinned c) twoWindows))
                     - minTabsCount ?st
             \<and> inOrder (closeableTabs ?srt ?st
                   (filter (\<lambda>c. windowId c = windowId ?t \<and> \<not> pinned c) twoWindows))"
    unfolding wid by (intro conjI c1 c2 c3 budget left ord)
  from inst prem have late: "\<not> js_lt (threshold ?st ?t) (nextCheck r)" by (rule mp)
  from ord r fin mem budget left exact late show ?thesis by (intro conjI exI [of _ r])
qed

text \<open>
  C2 as stated fails in three ways. On the two sample windows, with either sample sort,
  the returned value is 1500 at \<open>now = 1000\<close>: read as a delay, some tab would have to cross
  its threshold at 2500, and none does; read as an instant, tab 2 (an unpinned candidate of
  the first window) crosses its threshold at 1050, after \<open>now\<close> and strictly before 1500,
  and is not waited for because its window has spent its budget. On \<open>laterOnlyDescending\<close>
  the sort that moves only on a negative answer leaves the younger tab first: the value is
  1550 while the other tab crosses at 1500.
\<close>

theorem next_check_tight_counterexample:
  "tabsToClose sortMovingOnPositive (Fin 1000) (mkSettings 1 2) twoWindows
     = Inr \<lparr>closeTabs = [mkTab 1 1 (Some (Fin 100))], nextCheck = Fin 1500\<rparr>
   \<and> tabsToClose sortMovingOnNegative (Fin 1000) (mkSettings 1 2) twoWindows
     = Inr \<lparr>closeTabs = [mkTab 1 1 (Some (Fin 100))], nextCheck = Fin 1500\<rparr>
   \<and> js_add (Fin 1000) (Fin 1500) \<notin> set (map (threshold (mkSettings 1 2)) twoWindows)
   \<and> mkTab 2 1 (Some (Fin 450)) \<in> set twoWindows
   \<and> threshold (mkSettings 1 2) (mkTab 2 1 (Some (Fin 450))) = Fin 1050
   \<and> js_ge (Fin 1050) (Fin 1000) \<and> js_lt (Fin 1050) (Fin 1500)
   \<and> tabsToClose sortMovingOnNegative (Fin 1000) (mkSettings 1 2) laterOnlyDescending
     = Inr \<lparr>closeTabs = [], nextCheck = Fin 1550\<rparr>
   \<and> mkTab 2 1 (Some (Fin 900)) \<in> set laterOnlyDescending
   \<and> threshold (mkSettings 1 2) (mkTab 2 1 (Some (Fin 900))) = Fin 1500
   \<and> js_lt (Fin 1500) (Fin 1550)"
  by code_simp

text \<open>
  C3, as amended. With any sort that permutes its input, the engine returns, and the
  returned next check is the minimum of the next-check values of the windows: it is at most
  each of them and, unless it is \<^verbatim>\<open>Infinity\<close>, it is one of them (so it is \<^verbatim>\<open>Infinity\<close>
  when all of them are). It is an absolute instant, the threshold
  \<^verbatim>\<open>lastAccessed + minInactiveMilliseconds\<close> of a tab, not a duration from \<open>now\<close>.
\<close>

theorem next_check_is_minimum:
  assumes perm: "\<And>cmp xs. mset (srt cmp xs) = mset xs"
  shows "\<exists>r. tabsToClose srt now st tabs = Inr r
    \<and> (\<forall>w\<in>set (tabsByWindow tabs).
          \<exists>rw. perWindowResult srt now st w = Inr rw \<and> js_ge (nextCheck rw) (nextCheck r))
    \<and> (nextCheck r = PInf \<or>
         (\<exists>w\<in>set (tabsByWindow tabs).
            \<exists>rw. perWindowResult srt now st w = Inr rw \<and> nextCheck rw = nextCheck r))
    \<and> (nextCheck r = PInf \<or>
         (\<exists>t\<in>set tabs. js_ge (threshold st t) now \<and> nextCheck r = threshold st t))"
proof -
  obtain r where r: "tabsToClose srt now st tabs = Inr r" using tabsToClose_total by blast
  have 1: "\<exists>rw. perWindowResult srt now st w = Inr rw \<and> js_ge (nextCheck rw) (nextCheck r)"
    if w: "w \<in> set (tabsByWindow tabs)" for w
  proof -
    have "js_ge (nextCheck (windowInfo srt now st w)) (nextCheck r)"
      using nextCheck_global(1,3) [OF r] w windowInfo_nextCheck_not_NaN [of srt now st w]
      by (simp add: js_ge_def)
    with perWindowResult_windowInfo [of srt now st w] show ?thesis by blast
  qed
  have 2: "nextCheck r = PInf \<or>
         (\<exists>w\<in>set (tabsByWindow tabs).
            \<exists>rw. perWindowResult srt now st w = Inr rw \<and> nextCheck rw = nextCheck r)"
  proof (cases "nextCheck r = PInf")
    case True
    then show ?thesis by simp
  next
    case False
    with nextCheck_global(2) [OF r] obtain w where w: "w \<in> set (tabsByWindow tabs)"
      and eq: "nextCheck r = nextCheck (windowInfo srt now st w)" by blast
    with perWindowResult_windowInfo [of srt now st w] w show ?thesis by metis
  qed
  have 3: "nextCheck r = PInf \<or>
         (\<exists>t\<in>set tabs. js_ge (threshold st t) now \<and> nextCheck r = threshold st t)"
    using nextCheck_from_tab [OF perm r] by blast
  from r 1 2 3 show ?thesis by blast
qed

text \<open>The amended C3 on the single window of \<open>laterOnly\<close>: the window's own next check
  bounds the returned one.\<close>

theorem next_check_is_minimum_witness:
  "laterOnly \<in> set (tabsByWindow laterOnly)
   \<and> (\<exists>r rw. tabsToClose sortMovingOnPositive (Fin 1000) (mkSettings 1 2) laterOnly = Inr r
        \<and> perWindowResult sortMovingOnPositive (Fin 1000) (mkSettings 1 2) laterOnly = Inr rw
        \<and> js_ge (nextCheck rw) (nextCheck r))"
proof -
  let ?srt = "sortMovingOnPositive :: array_sort"
  have mem: "laterOnly \<in> set (tabsByWindow laterOnly)" by code_simp
  from next_check_is_minimum [of ?srt "Fin 1000" "mkSettings 1 2" laterOnly,
      OF mset_sortMovingOnPositive]
  obtain r
    where r: "tabsToClose ?srt (Fin 1000) (mkSettings 1 2) laterOnly = Inr r"
      and le: "\<forall>w\<in>set (tabsByWindow laterOnly).
          \<exists>rw. perWindowResult ?srt (Fin 1000) (mkSettings 1 2) w = Inr rw
            \<and> js_ge (nextCheck rw) (nextCheck r)"
    by blast
  from le mem obtain rw where "perWindowResult ?srt (Fin 1000) (mkSettings 1 2) laterOnly = Inr rw"
    "js_ge (nextCheck rw) (nextCheck r)" by blast
  with mem r show ?thesis by blast
qed

text \<open>
  C3 as stated fails on \<open>laterOnly\<close>, with either sample sort: at \<open>now = 1000\<close> the first
  tab becomes closeable at 900 + 600 = 1500, that is 500 ms from now, and the engine
  returns 1500, not 500.
\<close>

theorem next_check_is_minimum_counterexample:
  "tabsToClose sortMovingOnPositive (Fin 1000) (mkSettings 1 2) laterOnly
     = Inr \<lparr>closeTabs = [], nextCheck = Fin 1500\<rparr>
   \<and> tabsToClose sortMovingOnNegative (Fin 1000) (mkSettings 1 2) laterOnly
     = Inr \<lparr>closeTabs = [], nextCheck = Fin 1500\<rparr>
   \<and> threshold (mkSettings 1 2) (mkTab 1 1 (Some (Fin 900))) = js_add (Fin 1000) (Fin 500)
   \<and> Fin 1500 \<noteq> Fin 500"
  by code_simp

text \<open>
  C4. The claim says that a tab whose \<^verbatim>\<open>lastAccessed\<close> is absent is not a candidate, and
  the comment in the filter says the same ("Filter out audible tabs and tabs with no
  lastAccessed timestamp"). The test \<^verbatim>\<open>tab.lastAccessed >= Infinity\<close> is false for
  \<^verbatim>\<open>undefined\<close>, so such a tab passes the filter.
\<close>

theorem closeableTab_unknown_lastAccessed:
  "lastAccessed (mkTab 2 1 None) = None \<and> \<not> audible (mkTab 2 1 None)
   \<and> closeableTab (mkSettings 2 2) (mkTab 2 1 None)"
  by code_simp

text \<open>
  C5. Monotonic threshold. With any sort at all, the engine returns, and no tab whose
  threshold \<^verbatim>\<open>lastAccessed + minInactiveMilliseconds\<close> is greater than or equal to \<open>now\<close>
  is in the close-set.
\<close>

theorem monotonic_threshold:
  "\<exists>r. tabsToClose srt now st tabs = Inr r \<and>
     (\<forall>t. js_ge (threshold st t) now \<longrightarrow> t \<notin> set (closeTabs r))"
proof -
  obtain r where r: "tabsToClose srt now st tabs = Inr r" using tabsToClose_total by blast
  have "t \<notin> set (closeTabs r)" if "js_ge (threshold st t) now" for t
    using closeTabs_global_lt [OF r, of t] that by (auto simp: js_ge_def)
  with r show ?thesis by blast
qed

text \<open>C5 on the two sample windows: tab 2 reaches its threshold at 1050, after
  \<open>now = 1000\<close>, and stays open.\<close>

theorem monotonic_threshold_witness:
  "js_ge (threshold (mkSettings 1 2) (mkTab 2 1 (Some (Fin 450)))) (Fin 1000)
   \<and> (\<exists>r. tabsToClose sortMovingOnPositive (Fin 1000) (mkSettings 1 2) twoWindows = Inr r
        \<and> mkTab 2 1 (Some (Fin 450)) \<notin> set (closeTabs r))"
proof -
  have h: "js_ge (threshold (mkSettings 1 2) (mkTab 2 1 (Some (Fin 450)))) (Fin 1000)"
    by code_simp
  with monotonic_threshold [of sortMovingOnPositive "Fin 1000" "mkSettings 1 2" twoWindows]
  show ?thesis by blast
qed

text \<open>
  C6, as amended. Let \<^verbatim>\<open>maxHistorySize\<close> be non-negative, let the old history be empty
  when \<^verbatim>\<open>maxHistorySize\<close> is 0, and, when \<^verbatim>\<open>maxHistorySize\<close> is positive, let the URL
  parser accept the URL of every closed tab that has a title and a URL. Then the new
  history is the records of the closed tabs that pass the saveability filter, followed by
  the old history (of any length), cut to the first \<^verbatim>\<open>maxHistorySize\<close> entries; its length
  is at most \<^verbatim>\<open>maxHistorySize\<close>, and it is empty when \<^verbatim>\<open>maxHistorySize\<close> is 0.
\<close>

theorem history_accumulation:
  assumes nonneg: "0 \<le> maxHistorySize st"
    and disabled: "maxHistorySize st = 0 \<longrightarrow> history = []"
    and urls: "0 < maxHistorySize st \<longrightarrow>
      (\<forall>t\<in>set closed. \<forall>u. title t \<noteq> None \<and> url t = Some u \<longrightarrow> protocolOf u \<noteq> None)"
  shows "autocloseHistory protocolOf st closed history =
      Inr (take (nat (maxHistorySize st))
             (map closedPage (filter (saveableSpec protocolOf) closed) @ history))
    \<and> int (length (take (nat (maxHistorySize st))
             (map closedPage (filter (saveableSpec protocolOf) closed) @ history)))
        \<le> maxHistorySize st
    \<and> (maxHistorySize st = 0 \<longrightarrow> autocloseHistory protocolOf st closed history = Inr [])"
proof (cases "maxHistorySize st > 0")
  case True
  with urls have "\<forall>t\<in>set closed. \<forall>u. title t \<noteq> None \<and> url t = Some u \<longrightarrow> protocolOf u \<noteq> None"
    by simp
  then have "\<forall>t\<in>set closed. saveableTab protocolOf t = Inr (saveableSpec protocolOf t)"
    using saveableTab_spec by blast
  then have "filter_throwing (saveableTab protocolOf) closed
      = Inr (filter (saveableSpec protocolOf) closed)"
    by (rule filter_throwing_Inr)
  with True show ?thesis by (simp add: autocloseHistory_def)
next
  case False
  with nonneg have "maxHistorySize st = 0" by linarith
  moreover with disabled have "history = []" by simp
  ultimately show ?thesis by (simp add: autocloseHistory_def)
qed

text \<open>
  The amended C6 twice: with capacity 1, one older page and one tab closed, the new record
  displaces the older one; with capacity 0 and an empty log, the log stays empty.
\<close>

theorem history_accumulation_witness:
  "0 \<le> maxHistorySize (mkSettings 1 1) \<and> 0 < maxHistorySize (mkSettings 1 1)
   \<and> sampleProtocol ''https://example.org/'' = Some ''https:''
   \<and> autocloseHistory sampleProtocol (mkSettings 1 1) [mkTab 1 1 None] [samplePage, samplePage]
       = Inr [closedPage (mkTab 1 1 None)]
   \<and> maxHistorySize (mkSettings 1 0) = 0
   \<and> autocloseHistory sampleProtocol (mkSettings 1 0) [mkTab 1 1 None] [] = Inr []"
proof -
  have n1: "0 \<le> maxHistorySize (mkSettings 1 1)" and p1: "0 < maxHistorySize (mkSettings 1 1)"
    by (simp_all add: mkSettings_def)
  have d1: "maxHistorySize (mkSettings 1 1) = 0 \<longrightarrow> [samplePage, samplePage] = []"
    by (simp add: mkSettings_def)
  have u1: "0 < maxHistorySize (mkSettings 1 1) \<longrightarrow>
      (\<forall>t\<in>set [mkTab 1 1 None]. \<forall>u. title t \<noteq> None \<and> url t = Some u
         \<longrightarrow> sampleProtocol u \<noteq> None)"
    by (simp add: mkTab_def sampleProtocol_def)
  have v1: "take (nat (maxHistorySize (mkSettings 1 1)))
      (map closedPage (filter (saveableSpec sampleProtocol) [mkTab 1 1 None])
         @ [samplePage, samplePage])
      = [closedPage (mkTab 1 1 None)]"
    by code_simp
  have w: "sampleProtocol ''https://example.org/'' = Some ''https:''" by code_simp
  have n0: "0 \<le> maxHistorySize (mkSettings 1 0)" and z0: "maxHistorySize (mkSettings 1 0) = 0"
    by (simp_all add: mkSettings_def)
  have d0: "maxHistorySize (mkSettings 1 0) = 0 \<longrightarrow> ([] :: closedPageInfo list) = []"
    by simp
  have u0: "0 < maxHistorySize (mkSettings 1 0) \<longrightarrow>
      (\<forall>t\<in>set [mkTab 1 1 None]. \<forall>u. title t \<noteq> None \<and> url t = Some u
         \<longrightarrow> sampleProtocol u \<noteq> None)"
    by (simp add: mkSettings_def)
  from history_accumulation [OF n1 d1 u1] v1
  have a: "autocloseHistory sampleProtocol (mkSettings 1 1) [mkTab 1 1 None]
      [samplePage, samplePage] = Inr [closedPage (mkTab 1 1 None)]" by simp
  from history_accumulation [OF n0 d0 u0] z0
  have b: "autocloseHistory sampleProtocol (mkSettings 1 0) [mkTab 1 1 None] [] = Inr []"
    by blast
  from n1 p1 w a z0 b show ?thesis by (intro conjI)
qed

text \<open>
  C6 as stated fails in three ways. With \<^verbatim>\<open>maxHistorySize = 0\<close> and a log that is not
  empty, the guard \<^verbatim>\<open>maxHistorySize > 0\<close> skips the update: the old log stays as it is,
  longer than the capacity, where the claim promises the empty log. With a negative
  \<^verbatim>\<open>maxHistorySize\<close> no log has a length within the capacity. With a closed tab whose URL
  the parser rejects, \<^verbatim>\<open>new URL\<close> throws and there is no new history.
\<close>

theorem history_accumulation_counterexample:
  "autocloseHistory sampleProtocol (mkSettings 1 0) [mkTab 1 1 None] [samplePage]
     = Inr [samplePage]
   \<and> take (nat (maxHistorySize (mkSettings 1 0)))
       (map closedPage (filter (saveableSpec sampleProtocol) [mkTab 1 1 None]) @ [samplePage]) = []
   \<and> \<not> int (length [samplePage]) \<le> maxHistorySize (mkSettings 1 0)
   \<and> autocloseHistory sampleProtocol (mkSettings 1 (- 1)) [] [] = Inr []
   \<and> \<not> int (length ([] :: closedPageInfo list)) \<le> maxHistorySize (mkSettings 1 (- 1))
   \<and> sampleProtocol '''' = None
   \<and> autocloseHistory sampleProtocol (mkSettings 1 2) [emptyUrlTab] [] = Inl TypeError"
  by code_simp

text \<open>
  C7. The claim says that of two tabs of a window that are both past the threshold, the one
  with the smaller \<^verbatim>\<open>lastAccessed\<close> is closed when the budget allows one, and the comment on
  \<^verbatim>\<open>closeableTabs\<close> says the same ("sorted from longest to shortest inactivity"). On
  \<open>unknownBetween\<close> with a budget of one, tabs 1 and 3 are both past the threshold, tab 3 is
  the older one, and the close-set is tab 1 with either sample sort: the tab without
  \<^verbatim>\<open>lastAccessed\<close> between them is not filtered out and compares false with both, so
  nothing moves.
\<close>

theorem older_tab_not_chosen:
  "tabsToClose sortMovingOnPositive (Fin 1000) (mkSettings 2 2) unknownBetween
     = Inr \<lparr>closeTabs = [mkTab 1 1 (Some (Fin 5))], nextCheck = PInf\<rparr>
   \<and> tabsToClose sortMovingOnNegative (Fin 1000) (mkSettings 2 2) unknownBetween
     = Inr \<lparr>closeTabs = [mkTab 1 1 (Some (Fin 5))], nextCheck = PInf\<rparr>
   \<and> js_lt (threshold (mkSettings 2 2) (mkTab 1 1 (Some (Fin 5)))) (Fin 1000)
   \<and> js_lt (threshold (mkSettings 2 2) (mkTab 3 1 (Some (Fin 3)))) (Fin 1000)
   \<and> closeableTab (mkSettings 2 2) (mkTab 1 1 (Some (Fin 5)))
   \<and> closeableTab (mkSettings 2 2) (mkTab 3 1 (Some (Fin 3)))
   \<and> js_lt (toNumber (lastAccessed (mkTab 3 1 (Some (Fin 3)))))
           (toNumber (lastAccessed (mkTab 1 1 (Some (Fin 5)))))"
  by code_simp

text \<open>
  C8. With any sort that permutes its input, a tab whose \<^verbatim>\<open>lastAccessed\<close> is absent never
  stops the engine from returning, is never in the close-set, and is never the tab from
  which the next check is taken: the next check differs from its threshold (which is NaN)
  and is \<^verbatim>\<open>Infinity\<close> or the threshold of a tab whose \<^verbatim>\<open>lastAccessed\<close> is present.
\<close>

theorem unknown_lastAccessed_not_closed:
  assumes perm: "\<And>cmp xs. mset (srt cmp xs) = mset xs"
    and "t \<in> set tabs" and "lastAccessed t = None"
  shows "\<exists>r. tabsToClose srt now st tabs = Inr r \<and> t \<notin> set (closeTabs r)
    \<and> nextCheck r \<noteq> threshold st t
    \<and> (nextCheck r = PInf \<or>
         (\<exists>u\<in>set tabs. lastAccessed u \<noteq> None \<and> nextCheck r = threshold st u))"
proof -
  obtain r where r: "tabsToClose srt now st tabs = Inr r" using tabsToClose_total by blast
  have thr: "threshold st t = NaN" using assms(3) by (simp add: threshold_def)
  have 1: "t \<notin> set (closeTabs r)"
    using closeTabs_global_lt [OF r, of t] thr by auto
  have 2: "nextCheck r \<noteq> threshold st t" using nextCheck_global(1) [OF r] thr by simp
  have 3: "nextCheck r = PInf \<or>
      (\<exists>u\<in>set tabs. lastAccessed u \<noteq> None \<and> nextCheck r = threshold st u)"
  proof -
    have "js_ge (threshold st u) now \<Longrightarrow> lastAccessed u \<noteq> None" for u
      by (cases "lastAccessed u") (auto simp: threshold_def js_ge_def)
    with nextCheck_from_tab [OF perm r] show ?thesis by blast
  qed
  from r 1 2 3 show ?thesis by blast
qed

text \<open>C8 on \<open>unknownBetweenLater\<close>, whose second tab has no \<^verbatim>\<open>lastAccessed\<close>.\<close>

theorem unknown_lastAccessed_not_closed_witness:
  "mkTab 2 1 None \<in> set unknownBetweenLater \<and> lastAccessed (mkTab 2 1 None) = None
   \<and> (\<exists>r. tabsToClose sortMovingOnPositive (Fin 1000) (mkSettings 1 2) unknownBetweenLater = Inr r
        \<and> mkTab 2 1 None \<notin> set (closeTabs r)
        \<and> nextCheck r \<noteq> threshold (mkSettings 1 2) (mkTab 2 1 None))"
proof -
  have m: "mkTab 2 1 None \<in> set unknownBetweenLater" by code_simp
  have n: "lastAccessed (mkTab 2 1 None) = None" by code_simp
  from unknown_lastAccessed_not_closed [where srt = sortMovingOnPositive and now = "Fin 1000"
      and st = "mkSettings 1 2", OF mset_sortMovingOnPositive m n] m n
  show ?thesis by blast
qed

text \<open>
  C9. With no tab at all there is no window: the close-set is empty and the next check is
  \<^verbatim>\<open>Infinity\<close>, the value of \<^verbatim>\<open>Math.min\<close> without arguments; nothing throws.
\<close>

theorem tabsToClose_no_tabs:
  "tabsToClose srt now st [] = Inr \<lparr>closeTabs = [], nextCheck = PInf\<rparr>"
  by (simp add: tabsToClose_def tabsByWindow_def array_from_set_def)

text \<open>
  C10. No wake-up in the past. With any sort at all, the engine returns, and a next check
  below \<^verbatim>\<open>Infinity\<close> (a finite one in particular) is greater than or equal to \<open>now\<close>: it is
  the threshold of a candidate that satisfies
  \<^verbatim>\<open>lastAccessed + minInactiveMilliseconds >= now\<close>.
\<close>

theorem no_past_wake:
  "\<exists>r. tabsToClose srt now st tabs = Inr r \<and>
     (js_lt (nextCheck r) PInf \<longrightarrow> js_ge (nextCheck r) now)"
proof -
  obtain r where r: "tabsToClose srt now st tabs = Inr r" using tabsToClose_total by blast
  have "js_ge (nextCheck r) now" if "js_lt (nextCheck r) PInf"
    using nextCheck_ge_now [OF r] that by auto
  with r show ?thesis by blast
qed

text \<open>C10 on \<open>laterOnly\<close>: the next check 1500 is finite and not before \<open>now = 1000\<close>.\<close>

theorem no_past_wake_witness:
  "\<exists>r. tabsToClose sortMovingOnPositive (Fin 1000) (mkSettings 1 2) laterOnly = Inr r
     \<and> js_lt (nextCheck r) PInf \<and> js_ge (nextCheck r) (Fin 1000)"
proof -
  from no_past_wake [of sortMovingOnPositive "Fin 1000" "mkSettings 1 2" laterOnly] obtain r
    where r: "tabsToClose sortMovingOnPositive (Fin 1000) (mkSettings 1 2) laterOnly = Inr r"
      and imp: "js_lt (nextCheck r) PInf \<longrightarrow> js_ge (nextCheck r) (Fin 1000)" by blast
  from r tabsToClose_laterOnly have "nextCheck r = Fin 1500" by auto
  then have "js_lt (nextCheck r) PInf" by simp
  with r imp show ?thesis by blast
qed

end
